theory Spec2Isabelle
  imports Complex_Main "HOL-Library.Word" "HOL-Library.Sublist" "HOL-Library.Multiset"
begin

section \<open>Data model (types.ts)\<close>

text \<open>
  A JavaScript string is a sequence of UTF-16 code units; \<open>length\<close>, indexing,
  \<open>===\<close> on characters, \<open>includes\<close> and the regular expressions (no \<open>u\<close> flag) all work on
  code units.
\<close>

type_synonym cu = "16 word"
type_synonym ustring = "cu list"

datatype MovieStatus = WATCHED | PLANNING | DROPPED | WATCHING

datatype MediaType = MovieKind | Tv

text \<open>
  The interface \<open>Movie\<close>. Fields marked \<open>?\<close> in the interface are options. \<open>genre\<close> and
  \<open>mediaType\<close> are options as well: the interface requires them, but the statistics code
  tests \<open>!m.genre\<close> and \<open>!m.mediaType\<close> for records persisted or imported without them.
  Numbers are integers here (timestamps, minutes, episode counts, star ratings).
\<close>

record Movie =
  movie_id :: ustring
  title :: ustring
  year :: ustring
  country :: "ustring option"
  genre :: "ustring option"
  director :: "ustring option"
  rating :: int
  status :: MovieStatus
  review :: ustring
  posterColor :: ustring
  posterImage :: "ustring option"
  addedAt :: int
  lastUpdated :: int
  mediaType :: "MediaType option"
  currentEpisode :: "int option"
  totalEpisodes :: "int option"
  duration :: "int option"

text \<open>A record with a given identity and nothing else filled in, for concrete inputs.\<close>

definition blank_movie :: "ustring \<Rightarrow> Movie" where
  "blank_movie ident =
     \<lparr>movie_id = ident, title = [], year = [], country = None, genre = None, director = None,
      rating = 0, status = WATCHED, review = [], posterColor = [], posterImage = None,
      addedAt = 0, lastUpdated = 0, mediaType = None, currentEpisode = None,
      totalEpisodes = None, duration = None\<rparr>"

section \<open>String primitives of the platform\<close>

text \<open>The class \<open>\s\<close> of a JavaScript regular expression, which is also what \<open>trim\<close> strips:
  WhiteSpace and LineTerminator code points.\<close>

definition js_space :: "cu \<Rightarrow> bool" where
  "js_space c \<longleftrightarrow>
     c \<in> {0x09, 0x0A, 0x0B, 0x0C, 0x0D, 0x20, 0xA0, 0x1680, 0x2028, 0x2029, 0x202F,
          0x205F, 0x3000, 0xFEFF} \<or> (0x2000 \<le> c \<and> c \<le> 0x200A)"

definition trim :: "ustring \<Rightarrow> ustring" where
  "trim s = rev (dropWhile js_space (rev (dropWhile js_space s)))"

text \<open>
  \<open>s.split(/[...]+/)\<close> for a character class: the pieces between the maximal runs of
  separator characters. A run at the start or at the end leaves an empty piece there, and
  the empty string splits into one empty piece.
\<close>

function split_run :: "(cu \<Rightarrow> bool) \<Rightarrow> ustring \<Rightarrow> ustring \<Rightarrow> ustring list" where
  "split_run sep cur [] = [cur]"
| "split_run sep cur (c # cs) =
     (if sep c then cur # split_run sep [] (dropWhile sep cs)
      else split_run sep (cur @ [c]) cs)"
  by pat_completeness auto
termination
  by (relation "measure (\<lambda>(sep, cur, s). length s)")
     (auto simp: length_dropWhile_le le_imp_less_Suc)

definition js_split :: "(cu \<Rightarrow> bool) \<Rightarrow> ustring \<Rightarrow> ustring list" where
  "js_split sep s = split_run sep [] s"

text \<open>\<open>text.includes(search)\<close>: \<open>search\<close> occurs in \<open>text\<close> as a contiguous run.\<close>

fun js_includes :: "'a list \<Rightarrow> 'a list \<Rightarrow> bool" where
  "js_includes [] s \<longleftrightarrow> s = []"
| "js_includes (c # cs) s \<longleftrightarrow> prefix s (c # cs) \<or> js_includes cs s"

text \<open>\<open>parts.join(sep)\<close>.\<close>

fun join :: "'a list \<Rightarrow> 'a list list \<Rightarrow> 'a list" where
  "join sep [] = []"
| "join sep [x] = x"
| "join sep (x # y # ys) = x @ sep @ join sep (y # ys)"

text \<open>\<open>Array.prototype.sort(cmp)\<close> is stable, so for a consistent comparator its result is
  the one stable insertion produces: an element goes in front of the first later element
  it does not exceed.\<close>

fun insort_cmp :: "('a \<Rightarrow> 'a \<Rightarrow> int) \<Rightarrow> 'a \<Rightarrow> 'a list \<Rightarrow> 'a list" where
  "insort_cmp cmp x [] = [x]"
| "insort_cmp cmp x (y # ys) =
     (if cmp x y \<le> 0 then x # y # ys else y # insort_cmp cmp x ys)"

definition js_sort :: "('a \<Rightarrow> 'a \<Rightarrow> int) \<Rightarrow> 'a list \<Rightarrow> 'a list" where
  "js_sort cmp xs = foldr (insort_cmp cmp) xs []"

text \<open>\<open>xs.slice(start, end)\<close>: a negative index counts from the end, and both ends are
  clipped to the sequence.\<close>

definition js_slice :: "'a list \<Rightarrow> int \<Rightarrow> int \<Rightarrow> 'a list" where
  "js_slice xs start end' =
     (let len = int (length xs);
          k = (if start < 0 then max (len + start) 0 else min start len);
          final = (if end' < 0 then max (len + end') 0 else min end' len)
      in take (nat (final - k)) (drop (nat k) xs))"

text \<open>\<open>x || 0\<close> on an optional number.\<close>

definition or_zero :: "int option \<Rightarrow> int" where
  "or_zero x = (case x of None \<Rightarrow> 0 | Some v \<Rightarrow> v)"

section \<open>Edit distance (levenshtein)\<close>

text \<open>
  The matrix has \<open>b.length + 1\<close> rows of \<open>a.length + 1\<close> cells, all \<open>null\<close> at first;
  \<open>null\<close> reads as 0 in arithmetic. Every index the loops use is within the matrix.
\<close>

type_synonym matrix = "nat option list list"

definition num :: "nat option \<Rightarrow> nat" where
  "num c = (case c of None \<Rightarrow> 0 | Some n \<Rightarrow> n)"

definition cell :: "matrix \<Rightarrow> nat \<Rightarrow> nat \<Rightarrow> nat option" where
  "cell m j i = m ! j ! i"

definition set_cell :: "matrix \<Rightarrow> nat \<Rightarrow> nat \<Rightarrow> nat option \<Rightarrow> matrix" where
  "set_cell m j i v = m[j := (m ! j)[i := v]]"

text \<open>The body of the inner loop: \<open>matrix[j][i] = Math.min(deletion, insertion, substitution)\<close>.\<close>

definition lev_step :: "'a list \<Rightarrow> 'a list \<Rightarrow> nat \<Rightarrow> nat \<Rightarrow> matrix \<Rightarrow> matrix" where
  "lev_step a b j i m =
     (let indicator = (if a ! (i - 1) = b ! (j - 1) then 0 else 1)
      in set_cell m j i (Some (min (min (num (cell m j (i - 1)) + 1)
                                        (num (cell m (j - 1) i) + 1))
                                   (num (cell m (j - 1) (i - 1)) + indicator))))"

definition levenshtein :: "'a list \<Rightarrow> 'a list \<Rightarrow> nat" where
  "levenshtein a b =
     (let matrix0 = replicate (length b + 1) (replicate (length a + 1) None);
          matrix1 = fold (\<lambda>i m. set_cell m 0 i (Some i)) [0..<length a + 1] matrix0;
          matrix2 = fold (\<lambda>j m. set_cell m j 0 (Some j)) [0..<length b + 1] matrix1;
          matrix3 = fold (\<lambda>j m. fold (lev_step a b j) [1..<length a + 1] m)
                         [1..<length b + 1] matrix2
      in num (cell matrix3 (length b) (length a)))"

text \<open>The table the loops fill, as a recurrence: the value of cell \<open>[j][i]\<close>.\<close>

fun lev_table :: "'a list \<Rightarrow> 'a list \<Rightarrow> nat \<Rightarrow> nat \<Rightarrow> nat" where
  "lev_table a b 0 j = j"
| "lev_table a b (Suc i) 0 = Suc i"
| "lev_table a b (Suc i) (Suc j) =
     min (min (lev_table a b i (Suc j) + 1) (lev_table a b (Suc i) j + 1))
         (lev_table a b i j + (if a ! i = b ! j then 0 else 1))"

definition wf_matrix :: "nat \<Rightarrow> nat \<Rightarrow> matrix \<Rightarrow> bool" where
  "wf_matrix h w m \<longleftrightarrow> length m = h \<and> (\<forall>j<h. length (m ! j) = w)"

definition agrees :: "'a list \<Rightarrow> 'a list \<Rightarrow> matrix \<Rightarrow> (nat \<times> nat) set \<Rightarrow> bool" where
  "agrees a b m K \<longleftrightarrow> wf_matrix (length b + 1) (length a + 1) m \<and>
     (\<forall>(j, i) \<in> K. cell m j i = Some (lev_table a b i j))"

section \<open>Fuzzy text predicate (fuzzyMatch)\<close>

text \<open>The separators of \<open>/[\s\-_\<dots>]+/\<close>: white space, hyphen, underscore, full-width
  colon, colon, full-width comma, comma, ideographic full stop.\<close>

definition word_sep :: "cu \<Rightarrow> bool" where
  "word_sep c \<longleftrightarrow> js_space c \<or> c \<in> {0x2D, 0x5F, 0xFF1A, 0x3A, 0xFF0C, 0x2C, 0x3002}"

text \<open>
  \<open>toLowerCase\<close> is the platform's Unicode case folding and is a parameter. \<open>text\<close> is
  \<open>string | undefined\<close>; \<open>!text\<close> holds for \<open>undefined\<close> and for the empty string.
\<close>

definition fuzzyMatch :: "(ustring \<Rightarrow> ustring) \<Rightarrow> ustring option \<Rightarrow> ustring \<Rightarrow> bool" where
  "fuzzyMatch toLowerCase text search =
     (if search = [] then True
      else case text of
        None \<Rightarrow> False
      | Some t \<Rightarrow>
          if t = [] then False
          else
            let cleanText = toLowerCase t;
                cleanSearch = toLowerCase search
            in if js_includes cleanText cleanSearch then True
               else if length cleanSearch < 2 then False
               else
                 let maxErrors = (if length cleanSearch > 4 then 2 else 1 :: nat)
                 in if \<bar>int (length cleanText) - int (length cleanSearch)\<bar> \<le> int maxErrors + 1
                       \<and> levenshtein cleanText cleanSearch \<le> maxErrors then True
                    else list_ex (\<lambda>word.
                           if \<bar>int (length word) - int (length cleanSearch)\<bar> > int maxErrors
                           then False
                           else levenshtein cleanSearch word \<le> maxErrors)
                         (js_split word_sep cleanText))"

text \<open>A lower-casing of the ASCII letters, to run the predicate on concrete input.\<close>

definition ascii_lower :: "ustring \<Rightarrow> ustring" where
  "ascii_lower = map (\<lambda>c. if 0x41 \<le> c \<and> c \<le> 0x5A then c + 0x20 else c)"

section \<open>Delimited-text field codec (escapeCsv, parseCSVLine)\<close>

definition comma :: cu where "comma = 0x2C"
definition dquote :: cu where "dquote = 0x22"
definition newline :: cu where "newline = 0x0A"

text \<open>\<open>stringValue.replace(/"/g, '""')\<close>.\<close>

definition double_quotes :: "ustring \<Rightarrow> ustring" where
  "double_quotes s = concat (map (\<lambda>c. if c = dquote then [dquote, dquote] else [c]) s)"

text \<open>\<open>escapeCsv\<close> takes \<open>string | undefined\<close>; \<open>!str\<close> holds for \<open>undefined\<close> and for
  the empty string.\<close>

definition escapeCsv :: "ustring option \<Rightarrow> ustring" where
  "escapeCsv str =
     (case str of
        None \<Rightarrow> []
      | Some stringValue \<Rightarrow>
          if stringValue = [] then []
          else if comma \<in> set stringValue \<or> dquote \<in> set stringValue
                  \<or> newline \<in> set stringValue
               then [dquote] @ double_quotes stringValue @ [dquote]
               else stringValue)"

text \<open>
  The loop of \<open>parseCSVLine\<close> over the text that is left: \<open>char\<close> is \<open>text[i]\<close>, the head
  of the rest is \<open>text[i + 1]\<close> (\<open>undefined\<close> at the end of the text), and \<open>i++\<close> in the
  doubled-quote branch skips that next character.
\<close>

fun parse_loop :: "ustring \<Rightarrow> ustring list \<Rightarrow> ustring \<Rightarrow> bool \<Rightarrow> ustring list" where
  "parse_loop [] result current inQuote = result @ [current]"
| "parse_loop (char # rest) result current inQuote =
     (if char = dquote then
        (if inQuote \<and> (case rest of [] \<Rightarrow> False | nxt # _ \<Rightarrow> nxt = dquote)
         then parse_loop (tl rest) result (current @ [dquote]) inQuote
         else parse_loop rest result current (\<not> inQuote))
      else if char = comma \<and> \<not> inQuote then parse_loop rest (result @ [current]) [] inQuote
      else parse_loop rest result (current @ [char]) inQuote)"

definition parseCSVLine :: "ustring \<Rightarrow> ustring list" where
  "parseCSVLine text' = parse_loop text' [] [] False"

text \<open>What a field reads back as: an absent field as the empty string.\<close>

definition field_text :: "ustring option \<Rightarrow> ustring" where
  "field_text f = (case f of None \<Rightarrow> [] | Some s \<Rightarrow> s)"

definition csv_line :: "ustring option list \<Rightarrow> ustring" where
  "csv_line row = join [comma] (map escapeCsv row)"

section \<open>Mutations of the record set (App)\<close>

text \<open>
  \<open>handleAddMovie\<close>: the new record gets the identity minted by \<open>crypto.randomUUID()\<close>
  (\<open>newId\<close>) and goes on top. \<open>now\<close> is \<open>Date.now()\<close>.
\<close>

definition handleAddMovie :: "ustring \<Rightarrow> int \<Rightarrow> Movie \<Rightarrow> Movie list \<Rightarrow> Movie list" where
  "handleAddMovie newId now movieData prev =
     (let newMovie = movieData\<lparr>movie_id := newId,
            addedAt := (if addedAt movieData \<noteq> 0 then addedAt movieData else now),
            lastUpdated := now\<rparr>
      in newMovie # prev)"

text \<open>
  \<open>handleUpdateMovie\<close>: \<open>{...m, ...movieData, lastUpdated: Date.now()}\<close> for the record
  with the identity of \<open>movieData\<close>. The form (components/MovieForm.tsx) sends every
  field of the record except \<open>posterImage\<close> and \<open>lastUpdated\<close>, so the spread keeps
  the image of \<open>m\<close> and takes the other fields from \<open>movieData\<close>.
\<close>

definition handleUpdateMovie :: "int \<Rightarrow> Movie \<Rightarrow> Movie list \<Rightarrow> Movie list" where
  "handleUpdateMovie now movieData prev =
     map (\<lambda>m. if movie_id m = movie_id movieData
              then movieData\<lparr>posterImage := posterImage m, lastUpdated := now\<rparr>
              else m) prev"

text \<open>\<open>confirmed\<close> is the answer of \<open>window.confirm\<close>.\<close>

definition handleDeleteMovie :: "bool \<Rightarrow> ustring \<Rightarrow> Movie list \<Rightarrow> Movie list" where
  "handleDeleteMovie confirmed ident prev =
     (if confirmed then filter (\<lambda>m. movie_id m \<noteq> ident) prev else prev)"

definition handleBulkDelete :: "bool \<Rightarrow> ustring set \<Rightarrow> Movie list \<Rightarrow> Movie list" where
  "handleBulkDelete confirmed selectedIds prev =
     (if selectedIds = {} then prev
      else if confirmed then filter (\<lambda>m. movie_id m \<notin> selectedIds) prev
      else prev)"

text \<open>The invariant of the record set: the identities are pairwise distinct.\<close>

definition unique_ids :: "Movie list \<Rightarrow> bool" where
  "unique_ids movies \<longleftrightarrow> distinct (map movie_id movies)"

section \<open>Import and export (handleExport, handleFileChange)\<close>

text \<open>
  The structural dump is \<open>JSON.stringify(movies, null, 2)\<close> and the import reads it with
  \<open>JSON.parse\<close>; both are the platform's. A dump is identified with what \<open>JSON.parse\<close>
  makes of it: an array, which the import takes as \<open>Movie[]\<close>, another value, or a
  syntax error.
\<close>

datatype JsonContent = ParsedArray "Movie list" | ParsedOther | SyntaxError

datatype ImportAlert =
    AlertNotArray
  | AlertImported nat nat
  | AlertNoNewRecords
  | AlertImportFailed

definition handleExport_json :: "Movie list \<Rightarrow> JsonContent" where
  "handleExport_json movies = ParsedArray movies"

text \<open>The merge at the end of the import: candidates whose identity is among the
  current ones are dropped, the others go on top.\<close>

definition mergeImport :: "Movie list \<Rightarrow> Movie list \<Rightarrow> Movie list \<times> ImportAlert" where
  "mergeImport movies newMovies =
     (let currentIds = set (map movie_id movies);
          uniqueNewMovies = filter (\<lambda>m. movie_id m \<notin> currentIds) newMovies
      in if length uniqueNewMovies > 0
         then (uniqueNewMovies @ movies,
               AlertImported (length uniqueNewMovies) (length newMovies - length uniqueNewMovies))
         else (movies, AlertNoNewRecords))"

definition handleFileChange_json :: "Movie list \<Rightarrow> JsonContent \<Rightarrow> Movie list \<times> ImportAlert" where
  "handleFileChange_json movies content =
     (case content of
        ParsedArray parsed \<Rightarrow> mergeImport movies parsed
      | ParsedOther \<Rightarrow> (movies, AlertNotArray)
      | SyntaxError \<Rightarrow> (movies, AlertImportFailed))"

section \<open>Sorting (sortedMovies)\<close>

datatype SortField = SortAddedAt | SortRating | SortYear | SortTitle

datatype SortDirection = Asc | Desc

text \<open>\<open>a[field]\<close> for the two fields that reach the generic comparison.\<close>

definition field_value :: "SortField \<Rightarrow> Movie \<Rightarrow> int" where
  "field_value field m = (if field = SortRating then rating m else addedAt m)"

text \<open>
  The comparator. \<open>parseInt\<close> (\<open>None\<close> is \<open>NaN\<close>) and \<open>localeCompare\<close> with the \<open>zh-CN\<close>
  collation are the platform's and are parameters.
\<close>

definition compareMovies ::
  "(ustring \<Rightarrow> int option) \<Rightarrow> (ustring \<Rightarrow> ustring \<Rightarrow> int) \<Rightarrow> SortField \<Rightarrow> Movie \<Rightarrow> Movie \<Rightarrow> int"
where
  "compareMovies parseInt localeCompare field a b =
     (if field = SortYear then or_zero (parseInt (year a)) - or_zero (parseInt (year b))
      else if field = SortTitle then localeCompare (title a) (title b)
      else
        let valA = field_value field a; valB = field_value field b
        in if valA < valB then - 1 else if valA > valB then 1 else 0)"

definition sortedMovies ::
  "(ustring \<Rightarrow> int option) \<Rightarrow> (ustring \<Rightarrow> ustring \<Rightarrow> int) \<Rightarrow> SortField \<Rightarrow> SortDirection
     \<Rightarrow> Movie list \<Rightarrow> Movie list"
where
  "sortedMovies parseInt localeCompare field direction filteredMovies =
     (let data = js_sort (compareMovies parseInt localeCompare field) filteredMovies
      in if direction = Asc then data else rev data)"

section \<open>Pagination\<close>

text \<open>\<open>Math.ceil(length / itemsPerPage)\<close>: a division by 0 gives \<open>Infinity\<close>, or \<open>NaN\<close> for
  an empty sequence.\<close>

datatype jsnum = Fin int | Infinity | NaN

definition totalPages :: "nat \<Rightarrow> int \<Rightarrow> jsnum" where
  "totalPages len itemsPerPage =
     (if itemsPerPage = 0 then (if len = 0 then NaN else Infinity)
      else Fin (- ((- int len) div itemsPerPage)))"

definition le_jsnum :: "int \<Rightarrow> jsnum \<Rightarrow> bool" where
  "le_jsnum x y = (case y of Fin t \<Rightarrow> x \<le> t | Infinity \<Rightarrow> True | NaN \<Rightarrow> False)"

record PageState =
  currentPage :: int
  itemsPerPage :: int

definition currentDisplayedMovies :: "PageState \<Rightarrow> 'a list \<Rightarrow> 'a list" where
  "currentDisplayedMovies st sorted' =
     (let indexOfLastItem = currentPage st * itemsPerPage st;
          indexOfFirstItem = indexOfLastItem - itemsPerPage st
      in js_slice sorted' indexOfFirstItem indexOfLastItem)"

definition handlePageChange :: "'a list \<Rightarrow> int \<Rightarrow> PageState \<Rightarrow> PageState" where
  "handlePageChange sorted' page st =
     (if page \<ge> 1 \<and> le_jsnum page (totalPages (length sorted') (itemsPerPage st))
      then st\<lparr>currentPage := page\<rparr> else st)"

section \<open>Statistics (Stats)\<close>

text \<open>The aggregator works on \<open>filteredMovies\<close>, the records of the chosen time frame.\<close>

definition is_movie :: "Movie \<Rightarrow> bool" where
  "is_movie m \<longleftrightarrow> mediaType m = None \<or> mediaType m = Some MovieKind"

definition movieCount :: "Movie list \<Rightarrow> nat" where
  "movieCount filteredMovies = length (filter is_movie filteredMovies)"

definition movieDuration :: "Movie list \<Rightarrow> int" where
  "movieDuration filteredMovies =
     fold (\<lambda>m sum. sum + or_zero (duration m)) (filter is_movie filteredMovies) 0"

definition tvEntries :: "Movie list \<Rightarrow> Movie list" where
  "tvEntries filteredMovies = filter (\<lambda>m. mediaType m = Some Tv) filteredMovies"

definition uniqueTvTitles :: "Movie list \<Rightarrow> ustring set" where
  "uniqueTvTitles filteredMovies = set (map (\<lambda>m. trim (title m)) (tvEntries filteredMovies))"

definition tvCount :: "Movie list \<Rightarrow> nat" where
  "tvCount filteredMovies = card (uniqueTvTitles filteredMovies)"

text \<open>
  A \<open>Map\<close>, and an object used as a dictionary, keep their keys in insertion order:
  an association list in which \<open>set\<close> replaces the value of a key that is there and
  appends a new key.
\<close>

fun map_set :: "'k \<Rightarrow> 'v \<Rightarrow> ('k \<times> 'v) list \<Rightarrow> ('k \<times> 'v) list" where
  "map_set k v [] = [(k, v)]"
| "map_set k v ((k', v') # kvs) =
     (if k' = k then (k, v) # kvs else (k', v') # map_set k v kvs)"

record TvCalc =
  maxEp :: int
  epDuration :: int

definition tvCalcStep :: "Movie \<Rightarrow> (ustring \<times> TvCalc) list \<Rightarrow> (ustring \<times> TvCalc) list" where
  "tvCalcStep m tvCalcMap =
     (let title' = trim (title m);
          ep = or_zero (currentEpisode m);
          dur = or_zero (duration m);
          existing = (case map_of tvCalcMap title' of
                        None \<Rightarrow> \<lparr>maxEp = 0, epDuration = 0\<rparr>
                      | Some e \<Rightarrow> e)
      in map_set title'
           \<lparr>maxEp = max (maxEp existing) ep,
            epDuration = (if dur \<noteq> 0 then dur else epDuration existing)\<rparr>
           tvCalcMap)"

text \<open>For the proofs: the entry of a title as the step reads it, and what one series
  entry does to the entry of its title.\<close>

definition tv_get :: "(ustring \<times> TvCalc) list \<Rightarrow> ustring \<Rightarrow> TvCalc" where
  "tv_get cm t = (case map_of cm t of None \<Rightarrow> \<lparr>maxEp = 0, epDuration = 0\<rparr> | Some e \<Rightarrow> e)"

definition roll_step :: "Movie \<Rightarrow> TvCalc \<Rightarrow> TvCalc" where
  "roll_step m e =
     \<lparr>maxEp = max (maxEp e) (or_zero (currentEpisode m)),
      epDuration = (if or_zero (duration m) \<noteq> 0 then or_zero (duration m) else epDuration e)\<rparr>"

definition tvCalcMap :: "Movie list \<Rightarrow> (ustring \<times> TvCalc) list" where
  "tvCalcMap filteredMovies = fold tvCalcStep (tvEntries filteredMovies) []"

definition totalEpisodesWatched :: "Movie list \<Rightarrow> int" where
  "totalEpisodesWatched filteredMovies =
     fold (\<lambda>item sum. sum + maxEp item) (map snd (tvCalcMap filteredMovies)) 0"

definition tvDuration :: "Movie list \<Rightarrow> int" where
  "tvDuration filteredMovies =
     fold (\<lambda>item sum. sum + maxEp item * epDuration item) (map snd (tvCalcMap filteredMovies)) 0"

definition totalMinutes :: "Movie list \<Rightarrow> int" where
  "totalMinutes filteredMovies = movieDuration filteredMovies + tvDuration filteredMovies"

subsection \<open>The series rollup, title by title\<close>

definition entries_titled :: "Movie list \<Rightarrow> ustring \<Rightarrow> Movie list" where
  "entries_titled filteredMovies t =
     filter (\<lambda>m. trim (title m) = t) (tvEntries filteredMovies)"

text \<open>The maximum current-episode value across the entries of a title.\<close>

definition spec_episodes :: "Movie list \<Rightarrow> ustring \<Rightarrow> int" where
  "spec_episodes filteredMovies t =
     Max (set (map (\<lambda>m. or_zero (currentEpisode m)) (entries_titled filteredMovies t)))"

text \<open>The non-zero duration that stands last in the sequence among the entries of a
  title (0 when none of them has one).\<close>

definition last_listed_minutes :: "Movie list \<Rightarrow> ustring \<Rightarrow> int" where
  "last_listed_minutes filteredMovies t =
     (case filter (\<lambda>d. d \<noteq> 0)
             (map (\<lambda>m. or_zero (duration m)) (entries_titled filteredMovies t)) of
        [] \<Rightarrow> 0
      | d # ds \<Rightarrow> last (d # ds))"

definition rollup_totalMinutes :: "Movie list \<Rightarrow> int" where
  "rollup_totalMinutes filteredMovies =
     sum_list (map (\<lambda>m. or_zero (duration m)) (filter is_movie filteredMovies))
     + (\<Sum>t \<in> uniqueTvTitles filteredMovies.
          spec_episodes filteredMovies t * last_listed_minutes filteredMovies t)"

text \<open>
  In the words of the specification: the non-zero duration supplied most recently for a
  title. The record set is kept newest first (\<open>handleAddMovie\<close> and the import put new
  records on top, and the statistics read the set as it is), so among the entries of a
  title the most recent one with a non-zero duration is the first.
\<close>

definition spec_episode_minutes :: "Movie list \<Rightarrow> ustring \<Rightarrow> int" where
  "spec_episode_minutes movies t =
     (case filter (\<lambda>d. d \<noteq> 0)
             (map (\<lambda>m. or_zero (duration m)) (entries_titled movies t)) of
        [] \<Rightarrow> 0
      | d # ds \<Rightarrow> d)"

text \<open>A series entry titled \<open>Foo\<close>, for the scenario of two entries.\<close>

definition foo_entry :: "ustring \<Rightarrow> int \<Rightarrow> int \<Rightarrow> Movie" where
  "foo_entry ident ep dur =
     (blank_movie ident)\<lparr>title := [0x46, 0x6F, 0x6F], mediaType := Some Tv,
        currentEpisode := Some ep, duration := Some dur\<rparr>"

subsection \<open>Genre histogram\<close>

text \<open>The separators of \<open>/[,\<dots>/\<dots>\s]+/\<close>: comma, full-width comma, slash, ideographic
  (enumeration) comma, white space.\<close>

definition genre_sep :: "cu \<Rightarrow> bool" where
  "genre_sep c \<longleftrightarrow> c \<in> {0x2C, 0xFF0C, 0x2F, 0x3001} \<or> js_space c"

text \<open>The name of the bucket of the records without a genre.\<close>

definition unknown_genre :: ustring where
  "unknown_genre = [0x672A, 0x77E5]"

definition genre_tokens :: "ustring \<Rightarrow> ustring list" where
  "genre_tokens g = filter (\<lambda>g. length (trim g) > 0) (js_split genre_sep g)"

text \<open>
  \<open>genreCounts\<close> is a plain object, \<open>{}\<close>: a name it does not own is looked up in
  \<open>Object.prototype\<close>. These are the names found there; all of them hold functions, but
  \<open>__proto__\<close>, which is an accessor that reads as the prototype object and ignores the
  assignment of anything that is not an object.
\<close>

definition ascii :: "string \<Rightarrow> ustring" where
  "ascii s = map (\<lambda>c. of_nat (of_char c)) s"

definition proto_key :: ustring where
  "proto_key = ascii ''__proto__''"

definition inherited_names :: "ustring set" where
  "inherited_names = set (map ascii
     [''constructor'', ''hasOwnProperty'', ''isPrototypeOf'', ''propertyIsEnumerable'',
      ''toLocaleString'', ''toString'', ''valueOf'', ''__proto__'',
      ''__defineGetter__'', ''__defineSetter__'', ''__lookupGetter__'',
      ''__lookupSetter__''])"

text \<open>A value of \<open>genreCounts\<close>: a number, or the text that \<open>+ 1\<close> makes of a function
  (and of such a text again).\<close>

datatype GenreValue = Count int | Garbled

text \<open>
  \<open>genreCounts[g] = (genreCounts[g] || 0) + 1\<close>. For a name the object owns, a number
  goes up by one and a text stays a text. For a name it does not own, the inherited
  value, if there is one, is not a number and gives a text (which the accessor
  \<open>__proto__\<close> drops); no value at all gives 1.
\<close>

definition count_up ::
  "ustring \<Rightarrow> (ustring \<times> GenreValue) list \<Rightarrow> (ustring \<times> GenreValue) list" where
  "count_up g genreCounts =
     (case map_of genreCounts g of
        Some (Count n) \<Rightarrow> map_set g (Count ((if n \<noteq> 0 then n else 0) + 1)) genreCounts
      | Some Garbled \<Rightarrow> map_set g Garbled genreCounts
      | None \<Rightarrow>
          if g \<in> inherited_names
          then (if g = proto_key then genreCounts else map_set g Garbled genreCounts)
          else map_set g (Count 1) genreCounts)"

definition genreStep ::
  "Movie \<Rightarrow> (ustring \<times> GenreValue) list \<Rightarrow> (ustring \<times> GenreValue) list" where
  "genreStep m genreCounts =
     (case genre m of
        None \<Rightarrow> count_up unknown_genre genreCounts
      | Some g \<Rightarrow>
          if g = [] then count_up unknown_genre genreCounts
          else fold count_up (genre_tokens g) genreCounts)"

definition genreCounts :: "Movie list \<Rightarrow> (ustring \<times> GenreValue) list" where
  "genreCounts filteredMovies = fold genreStep filteredMovies []"














text \<open>A record with a given genre field; the one with the field \<open>\<dots>,\<dots>\<close> of two
  two-character genres.\<close>

definition genre_record :: "ustring \<Rightarrow> Movie" where
  "genre_record g = (blank_movie [0x31])\<lparr>genre := Some g\<rparr>"


section \<open>The edit distance fills the table of its recurrence\<close>

lemma wf_set_cell: "wf_matrix h w m \<Longrightarrow> wf_matrix h w (set_cell m j i v)"
  by (cases "j < length m") (auto simp: wf_matrix_def set_cell_def nth_list_update)

lemma cell_set_cell:
  "wf_matrix h w m \<Longrightarrow> j < h \<Longrightarrow> i < w \<Longrightarrow>
   cell (set_cell m j i v) j' i' = (if j' = j \<and> i' = i then v else cell m j' i')"
  by (auto simp: wf_matrix_def set_cell_def cell_def nth_list_update)

lemma fold_upt_invariant:
  assumes "P k s" and "k \<le> n"
    and "\<And>i s. k \<le> i \<Longrightarrow> i < n \<Longrightarrow> P i s \<Longrightarrow> P (Suc i) (f i s)"
  shows "P n (fold f [k..<n] s)"
  using assms(2,3)
proof (induction n)
  case 0
  with assms(1) show ?case by simp
next
  case (Suc n)
  show ?case
  proof (cases "k = Suc n")
    case True
    with assms(1) show ?thesis by simp
  next
    case False
    with Suc.prems have kn: "k \<le> n" by simp
    have "P n (fold f [k..<n] s)"
      using Suc.IH [OF kn] Suc.prems(2) by simp
    then show ?thesis using kn Suc.prems(2) [of n] by simp
  qed
qed

lemma lev_table_0 [simp]: "lev_table a b i 0 = i"
  by (cases i) simp_all

lemma agrees_set:
  assumes "agrees a b m K" "j \<le> length b" "i \<le> length a" "v = lev_table a b i j"
  shows "agrees a b (set_cell m j i (Some v)) (insert (j, i) K)"
  using assms unfolding agrees_def
  by (auto simp: wf_set_cell cell_set_cell [where h = "length b + 1" and w = "length a + 1"])

lemma agrees_lev_step:
  assumes "agrees a b m K" "1 \<le> j" "j \<le> length b" "1 \<le> i" "i \<le> length a"
    and "(j, i - 1) \<in> K" "(j - 1, i) \<in> K" "(j - 1, i - 1) \<in> K"
  shows "agrees a b (lev_step a b j i m) (insert (j, i) K)"
proof -
  obtain i' j' where ij: "i = Suc i'" "j = Suc j'"
    using assms(2,4) by (cases i; cases j) auto
  have c: "cell m j (i - 1) = Some (lev_table a b (i - 1) j)"
      "cell m (j - 1) i = Some (lev_table a b i (j - 1))"
      "cell m (j - 1) (i - 1) = Some (lev_table a b (i - 1) (j - 1))"
    using assms(1,6,7,8) unfolding agrees_def by auto
  show ?thesis
    unfolding lev_step_def Let_def
    by (rule agrees_set [OF assms(1,3,5)]) (use c in \<open>simp add: num_def ij\<close>)
qed

lemma agrees_mono: "agrees a b m K \<Longrightarrow> K' \<subseteq> K \<Longrightarrow> agrees a b m K'"
  unfolding agrees_def by auto

lemma agrees_init:
  "agrees a b (replicate (length b + 1) (replicate (length a + 1) None)) {}"
  by (simp add: agrees_def wf_matrix_def del: replicate_Suc)

lemma loop_first_row:
  assumes "agrees a b m {}"
  shows "agrees a b (fold (\<lambda>i m. set_cell m 0 i (Some i)) [0..<length a + 1] m)
           {(0, i) | i. i < length a + 1}"
proof -
  let ?P = "\<lambda>n m. agrees a b m {(0, i) | i. i < n}"
  have "?P (length a + 1) (fold (\<lambda>i m. set_cell m 0 i (Some i)) [0..<length a + 1] m)"
  proof (rule fold_upt_invariant [where P = ?P])
    show "?P 0 m" using assms by simp
  next
    fix i s assume i: "i < length a + 1" and s: "?P i s"
    have "agrees a b (set_cell s 0 i (Some i)) (insert (0, i) {(0, i') | i'. i' < i})"
      by (rule agrees_set [OF s]) (use i in auto)
    moreover have "{(0::nat, i') | i'. i' < Suc i} \<subseteq> insert (0, i) {(0, i') | i'. i' < i}"
      by (auto simp: less_Suc_eq)
    ultimately show "?P (Suc i) (set_cell s 0 i (Some i))" by (rule agrees_mono)
  qed simp
  then show ?thesis .
qed

lemma loop_first_column:
  assumes "agrees a b m K"
  shows "agrees a b (fold (\<lambda>j m. set_cell m j 0 (Some j)) [0..<length b + 1] m)
           (K \<union> {(j, 0) | j. j < length b + 1})"
proof -
  let ?P = "\<lambda>n m. agrees a b m (K \<union> {(j, 0) | j. j < n})"
  have "?P (length b + 1) (fold (\<lambda>j m. set_cell m j 0 (Some j)) [0..<length b + 1] m)"
  proof (rule fold_upt_invariant [where P = ?P])
    show "?P 0 m" using assms by simp
  next
    fix j s assume j: "j < length b + 1" and s: "?P j s"
    have v: "j = lev_table a b 0 j" by simp
    have "agrees a b (set_cell s j 0 (Some j)) (insert (j, 0) (K \<union> {(j', 0) | j'. j' < j}))"
      by (rule agrees_set [OF s _ _ v]) (use j in auto)
    moreover have "K \<union> {(j', 0::nat) | j'. j' < Suc j}
        \<subseteq> insert (j, 0) (K \<union> {(j', 0) | j'. j' < j})"
      by (auto simp: less_Suc_eq)
    ultimately show "?P (Suc j) (set_cell s j 0 (Some j))" by (rule agrees_mono)
  qed simp
  then show ?thesis .
qed

lemma loop_row:
  assumes "agrees a b m K" "1 \<le> j" "j \<le> length b"
    and "{(j - 1, i) | i. i < length a + 1} \<subseteq> K" "(j, 0) \<in> K"
  shows "agrees a b (fold (lev_step a b j) [1..<length a + 1] m)
           (K \<union> {(j, i) | i. i < length a + 1})"
proof -
  let ?P = "\<lambda>n m. agrees a b m (K \<union> {(j, i) | i. i < n})"
  have "?P (length a + 1) (fold (lev_step a b j) [1..<length a + 1] m)"
  proof (rule fold_upt_invariant [where P = ?P])
    have "K \<union> {(j, i) | i. i < 1} \<subseteq> K" using assms(5) by auto
    with assms(1) show "?P 1 m" by (rule agrees_mono)
  next
    fix i s assume i: "1 \<le> i" "i < length a + 1" and s: "?P i s"
    have "agrees a b (lev_step a b j i s) (insert (j, i) (K \<union> {(j, i') | i'. i' < i}))"
      by (rule agrees_lev_step [OF s assms(2,3) i(1)]) (use i assms(4) in auto)
    moreover have "K \<union> {(j, i') | i'. i' < Suc i}
        \<subseteq> insert (j, i) (K \<union> {(j, i') | i'. i' < i})"
      by (auto simp: less_Suc_eq)
    ultimately show "?P (Suc i) (lev_step a b j i s)" by (rule agrees_mono)
  qed simp
  then show ?thesis .
qed

lemma loop_rows:
  assumes "agrees a b m ({(0, i) | i. i < length a + 1} \<union> {(j, 0) | j. j < length b + 1})"
  shows "agrees a b
           (fold (\<lambda>j m. fold (lev_step a b j) [1..<length a + 1] m) [1..<length b + 1] m)
           {(j, i) | j i. j < length b + 1 \<and> i < length a + 1}"
proof -
  let ?B = "{(0, i) | i. i < length a + 1} \<union> {(j, 0) | j. j < length b + 1}"
  let ?P = "\<lambda>n m. agrees a b m (?B \<union> {(j, i) | j i. j < n \<and> i < length a + 1})"
  have "?P (length b + 1)
          (fold (\<lambda>j m. fold (lev_step a b j) [1..<length a + 1] m) [1..<length b + 1] m)"
  proof (rule fold_upt_invariant [where P = ?P])
    have "?B \<union> {(j, i) | j i. j < 1 \<and> i < length a + 1} \<subseteq> ?B" by auto
    with assms show "?P 1 m" by (rule agrees_mono)
  next
    fix j s assume j: "1 \<le> j" "j < length b + 1" and s: "?P j s"
    let ?K = "?B \<union> {(j', i) | j' i. j' < j \<and> i < length a + 1}"
    have "agrees a b (fold (lev_step a b j) [1..<length a + 1] s)
            (?K \<union> {(j, i) | i. i < length a + 1})"
      by (rule loop_row [OF s j(1)]) (use j in auto)
    moreover have "?B \<union> {(j', i) | j' i. j' < Suc j \<and> i < length a + 1}
        \<subseteq> ?K \<union> {(j, i) | i. i < length a + 1}"
      by (auto simp: less_Suc_eq)
    ultimately show "?P (Suc j) (fold (lev_step a b j) [1..<length a + 1] s)"
      by (rule agrees_mono)
  qed simp
  then show ?thesis by (rule agrees_mono) auto
qed

lemma levenshtein_table: "levenshtein a b = lev_table a b (length a) (length b)"
proof -
  let ?m0 = "replicate (length b + 1) (replicate (length a + 1) None) :: matrix"
  let ?m1 = "fold (\<lambda>i m. set_cell m 0 i (Some i)) [0..<length a + 1] ?m0"
  let ?m2 = "fold (\<lambda>j m. set_cell m j 0 (Some j)) [0..<length b + 1] ?m1"
  let ?m3 = "fold (\<lambda>j m. fold (lev_step a b j) [1..<length a + 1] m) [1..<length b + 1] ?m2"
  have "agrees a b ?m1 {(0, i) | i. i < length a + 1}"
    by (rule loop_first_row [OF agrees_init])
  then have "agrees a b ?m2 ({(0, i) | i. i < length a + 1} \<union> {(j, 0) | j. j < length b + 1})"
    by (rule loop_first_column)
  then have "agrees a b ?m3 {(j, i) | j i. j < length b + 1 \<and> i < length a + 1}"
    by (rule loop_rows)
  then have "cell ?m3 (length b) (length a) = Some (lev_table a b (length a) (length b))"
    unfolding agrees_def by auto
  then show ?thesis by (simp add: levenshtein_def Let_def num_def)
qed

lemma lev_table_sym: "lev_table a b i j = lev_table b a j i"
  by (induction a b i j rule: lev_table.induct) (auto simp: min.commute min.left_commute)

lemma lev_table_le_max: "lev_table a b i j \<le> max i j"
  by (induction a b i j rule: lev_table.induct) auto

lemma lev_table_zero_imp:
  "lev_table a b i j = 0 \<Longrightarrow> i \<le> length a \<Longrightarrow> j \<le> length b \<Longrightarrow>
   i = j \<and> take i a = take j b"
proof (induction a b i j rule: lev_table.induct)
  case (3 a b i j)
  from "3.prems"(1) have z: "lev_table a b i j = 0" "a ! i = b ! j"
    by (auto simp: min_def split: if_splits)
  with "3.IH"(3) "3.prems" have "i = j" "take i a = take j b" by auto
  with z "3.prems" show ?case by (simp add: take_Suc_conv_app_nth)
qed auto

lemma lev_table_same: "i \<le> length a \<Longrightarrow> lev_table a a i i = 0"
  by (induction i) auto

lemma levenshtein_sym: "levenshtein a b = levenshtein b a"
  by (simp add: levenshtein_table lev_table_sym [of a b])

lemma levenshtein_zero_iff: "levenshtein a b = 0 \<longleftrightarrow> a = b"
proof
  assume "levenshtein a b = 0"
  then have "lev_table a b (length a) (length b) = 0" by (simp add: levenshtein_table)
  from lev_table_zero_imp [OF this] show "a = b" by simp
next
  assume "a = b"
  then show "levenshtein a b = 0" by (simp add: levenshtein_table lev_table_same)
qed

lemma levenshtein_le_max: "levenshtein a b \<le> max (length a) (length b)"
  by (simp only: levenshtein_table lev_table_le_max)

lemma levenshtein_Nil: "levenshtein [] b = length b" "levenshtein a [] = length a"
  by (simp_all add: levenshtein_table)

text \<open>
  Claim C6. For all strings \<open>a\<close> and \<open>b\<close>: the edit distance is symmetric, it is 0 exactly
  when \<open>a\<close> and \<open>b\<close> are identical, it is at most the longer of the two lengths, and when
  either string is empty it is the length of the other.
\<close>

theorem levenshtein_properties:
  "levenshtein a b = levenshtein b a
   \<and> (levenshtein a b = 0 \<longleftrightarrow> a = b)
   \<and> levenshtein a b \<le> max (length a) (length b)
   \<and> levenshtein [] b = length b
   \<and> levenshtein a [] = length a"
  using levenshtein_sym [of a b] levenshtein_zero_iff [of a b] levenshtein_le_max [of a b]
    levenshtein_Nil(1) [of b] levenshtein_Nil(2) [of a]
  by blast

section \<open>The fuzzy predicate\<close>

lemma js_includes_sublist: "js_includes t s \<longleftrightarrow> sublist s t"
  by (induction t) (auto simp: sublist_Cons_right)

text \<open>
  Claim C5. \<open>fuzzyMatch text term\<close> is true when \<open>term\<close> is empty; otherwise it is
  false when \<open>text\<close> is absent (undefined or empty); otherwise, with both sides
  case-folded, it is true when the term is a contiguous substring of the text; otherwise
  it is false when the term has fewer than 2 characters; otherwise, with a budget of 2
  for a term longer than 4 and of 1 else, it is true exactly when the whole text is
  within budget + 1 in length and within the budget in edit distance, or some word of the
  text (split at white space and the punctuation set) is within the budget in length and
  in edit distance.
\<close>

theorem fuzzyMatch_spec:
  "fuzzyMatch lower text search \<longleftrightarrow>
     search = [] \<or>
     (\<exists>t. text = Some t \<and> t \<noteq> [] \<and>
        (let ct = lower t; cs = lower search;
             budget = (if length cs > 4 then 2 else 1 :: nat)
         in sublist cs ct \<or>
            (2 \<le> length cs \<and>
              ((\<bar>int (length ct) - int (length cs)\<bar> \<le> int budget + 1
                  \<and> levenshtein ct cs \<le> budget) \<or>
               (\<exists>w \<in> set (js_split word_sep ct).
                  \<bar>int (length w) - int (length cs)\<bar> \<le> int budget
                  \<and> levenshtein w cs \<le> budget)))))"
  unfolding fuzzyMatch_def Let_def list_ex_iff js_includes_sublist
  by (cases "text") (auto simp: levenshtein_sym [of "lower search"] not_less)

text \<open>One substituted character in a four-character title is within the budget of 1.\<close>

theorem fuzzyMatch_spec_witness:
  "fuzzyMatch ascii_lower (Some [0x76D7, 0x68A6, 0x7A7A, 0x95F4]) [0x76D7, 0x5B5F, 0x7A7A, 0x95F4]
   \<and> \<not> fuzzyMatch ascii_lower (Some [0x76D7, 0x68A6, 0x7A7A, 0x95F4]) [0x5B5F, 0x5B5F, 0x7A7A, 0x95F4]
   \<and> \<not> fuzzyMatch ascii_lower None [0x76D7]"
proof -
  have l: "levenshtein [0x76D7, 0x68A6, 0x7A7A, 0x95F4 :: cu] [0x76D7, 0x5B5F, 0x7A7A, 0x95F4] = 1"
      "levenshtein [0x76D7, 0x68A6, 0x7A7A, 0x95F4 :: cu] [0x5B5F, 0x5B5F, 0x7A7A, 0x95F4] = 2"
    by (simp_all add: levenshtein_table)
  have s: "js_split word_sep [0x76D7, 0x68A6, 0x7A7A, 0x95F4] = [[0x76D7, 0x68A6, 0x7A7A, 0x95F4]]"
    by (simp add: js_split_def word_sep_def js_space_def)
  show ?thesis
    by (simp add: fuzzyMatch_spec ascii_lower_def l s sublist_Cons_right)
qed

section \<open>The field codec\<close>

lemma comma_neq_dquote [simp]: "comma \<noteq> dquote" "dquote \<noteq> comma"
  by (simp_all add: comma_def dquote_def)

lemma parse_plain:
  "\<forall>c \<in> set f. c \<noteq> dquote \<and> c \<noteq> comma \<Longrightarrow>
   parse_loop (f @ rest) result current False = parse_loop rest result (current @ f) False"
  by (induction f arbitrary: current) auto

lemma double_quotes_simps [simp]:
  "double_quotes [] = []"
  "double_quotes (c # s) = (if c = dquote then [dquote, dquote] else [c]) @ double_quotes s"
  by (simp_all add: double_quotes_def)

lemma parse_quoted:
  "rest = [] \<or> hd rest \<noteq> dquote \<Longrightarrow>
   parse_loop (double_quotes s @ dquote # rest) result current True
     = parse_loop rest result (current @ s) False"
proof (induction s arbitrary: current)
  case Nil
  then show ?case by (cases rest) auto
next
  case (Cons c s)
  show ?case
    using Cons.IH [OF Cons.prems, of "current @ [c]"] by (cases "c = dquote") simp_all
qed

lemma parse_escaped:
  assumes "rest = [] \<or> hd rest = comma"
  shows "parse_loop (escapeCsv f @ rest) result current False
           = parse_loop rest result (current @ field_text f) False"
proof (cases f)
  case None
  then show ?thesis by (simp add: escapeCsv_def field_text_def)
next
  case (Some s)
  show ?thesis
  proof (cases "comma \<in> set s \<or> dquote \<in> set s \<or> newline \<in> set s")
    case True
    then have ne: "s \<noteq> []" by auto
    have r: "rest = [] \<or> hd rest \<noteq> dquote"
      using assms by (auto simp: comma_def dquote_def)
    have "escapeCsv f @ rest = dquote # (double_quotes s @ dquote # rest)"
      using True ne Some by (simp add: escapeCsv_def)
    then show ?thesis
      using parse_quoted [OF r, of s result current] Some by (simp add: field_text_def)
  next
    case False
    then have p: "\<forall>c \<in> set s. c \<noteq> dquote \<and> c \<noteq> comma" by auto
    have "escapeCsv f = s" using False Some by (simp add: escapeCsv_def)
    then show ?thesis using parse_plain [OF p, of rest result current] Some
      by (simp add: field_text_def)
  qed
qed

lemma parse_row:
  "parse_loop (csv_line (f # row)) result [] False = result @ map field_text (f # row)"
proof (induction row arbitrary: f result)
  case Nil
  show ?case using parse_escaped [of "[]" f result "[]"] by (simp add: csv_line_def)
next
  case (Cons g row)
  have "csv_line (f # g # row) = escapeCsv f @ comma # csv_line (g # row)"
    by (simp add: csv_line_def)
  then show ?case
    using parse_escaped [of "comma # csv_line (g # row)" f result "[]"]
      Cons.IH [of g "result @ [field_text f]"]
    by simp
qed

text \<open>
  Claim C9 (amended). For every non-empty list of fields, none of which contains a
  newline: escaping each field, joining with commas and parsing the line with
  \<open>parseCSVLine\<close> gives back the fields, an absent field as the empty string. (The
  parser of one line does not depend on the condition on newlines; the proof does not
  use it.)
\<close>

theorem csv_roundtrip:
  assumes "row \<noteq> []" and "\<forall>f \<in> set row. newline \<notin> set (field_text f)"
  shows "parseCSVLine (csv_line row) = map field_text row"
  using assms(1) parse_row [of _ _ "[]"] by (cases row) (auto simp: parseCSVLine_def)

text \<open>The fields \<open>a"b\<close>, an absent one, \<open>x,y\<close> and \<open>z\<close> make the line
  \<open>"a""b",,"x,y",z\<close>, which parses back.\<close>

theorem csv_roundtrip_witness:
  "csv_line [Some [0x61, 0x22, 0x62], None, Some [0x78, 0x2C, 0x79], Some [0x7A]]
     = [0x22, 0x61, 0x22, 0x22, 0x62, 0x22, 0x2C, 0x2C, 0x22, 0x78, 0x2C, 0x79, 0x22, 0x2C, 0x7A]
   \<and> parseCSVLine (csv_line [Some [0x61, 0x22, 0x62], None, Some [0x78, 0x2C, 0x79], Some [0x7A]])
     = [[0x61, 0x22, 0x62], [], [0x78, 0x2C, 0x79], [0x7A]]"
  using csv_roundtrip [of "[Some [0x61, 0x22, 0x62], None, Some [0x78, 0x2C, 0x79], Some [0x7A]]"]
  by (simp add: field_text_def newline_def csv_line_def escapeCsv_def comma_def dquote_def)

text \<open>The claim as stated, for every list, fails at the empty list: nothing joined is the
  empty line, which parses as one empty field.\<close>

theorem csv_roundtrip_empty_row: "parseCSVLine (csv_line []) \<noteq> map field_text []"
  by (simp add: parseCSVLine_def csv_line_def)

section \<open>Pagination\<close>

lemma take_min_length: "take (min a (length ys)) ys = take a ys"
  by (simp add: min_def)

lemma js_slice_nat: "js_slice xs (int a) (int a + int b) = take b (drop a xs)"
proof (cases "a < length xs")
  case True
  have "nat (min (int a + int b) (int (length xs)) - int a) = min b (length (drop a xs))"
    using True by (simp add: min_def) linarith
  with True show ?thesis
    by (simp add: js_slice_def Let_def take_min_length del: length_drop)
next
  case False
  then show ?thesis by (simp add: js_slice_def Let_def min_def)
qed

lemma page_slice:
  assumes "0 < s" "1 \<le> p"
  shows "currentDisplayedMovies \<lparr>currentPage = p, itemsPerPage = s\<rparr> xs
           = take (nat s) (drop (nat ((p - 1) * s)) xs)"
proof -
  have nn: "0 \<le> (p - 1) * s" using assms by simp
  have e: "p * s - s = int (nat ((p - 1) * s))" "p * s = int (nat ((p - 1) * s)) + int (nat s)"
    using nn assms by (simp_all add: algebra_simps)
  have "js_slice xs (p * s - s) (p * s) = take (nat s) (drop (nat ((p - 1) * s)) xs)"
    unfolding e(1) by (subst e(2)) (rule js_slice_nat)
  then show ?thesis by (simp add: currentDisplayedMovies_def Let_def)
qed

lemma totalPages_ceiling:
  "0 < s \<Longrightarrow> totalPages n s = Fin \<lceil>real n / real_of_int s\<rceil>"
  using ceiling_divide_eq_div [of "int n" s, where ?'a = real]
  by (simp add: totalPages_def)

lemma concat_pages_nat:
  "concat (map (\<lambda>k. take s (drop (k * s) xs)) [0..<t]) = take (t * s) xs"
proof (induction t)
  case (Suc t)
  have "take (t * s) xs @ take s (drop (t * s) xs) = take (t * s + s) xs"
    by (simp add: take_add)
  with Suc show ?case by (simp add: add.commute)
qed simp

lemma upto_as_upt: "[1..int t] = map (\<lambda>k. int k + 1) [0..<t]"
proof (induction t)
  case (Suc t)
  have "[1..int (Suc t)] = [1..int t] @ [int t + 1]"
    using upto_rec2 [of 1 "int t + 1"] by (simp add: add.commute)
  with Suc show ?case by simp
qed simp

lemma concat_pages:
  assumes "0 < s"
  shows "concat (map (\<lambda>p. currentDisplayedMovies \<lparr>currentPage = p, itemsPerPage = s\<rparr> xs)
           [1..\<lceil>real (length xs) / real_of_int s\<rceil>]) = xs"
proof -
  define t where "t = nat \<lceil>real (length xs) / real_of_int s\<rceil>"
  have "0 \<le> real (length xs) / real_of_int s" using assms by simp
  then have c0: "0 \<le> \<lceil>real (length xs) / real_of_int s\<rceil>" by linarith
  then have ct: "\<lceil>real (length xs) / real_of_int s\<rceil> = int t" by (simp add: t_def)
  have "real (length xs) / real_of_int s \<le> real t"
    using ct le_of_int_ceiling [of "real (length xs) / real_of_int s"] by simp
  then have "real (length xs) \<le> real t * real_of_int s"
    using assms by (simp add: pos_divide_le_eq)
  then have "real (length xs) \<le> real (t * nat s)" using assms by simp
  then have cover: "length xs \<le> t * nat s" by linarith
  have pg: "currentDisplayedMovies \<lparr>currentPage = int k + 1, itemsPerPage = s\<rparr> xs
              = take (nat s) (drop (k * nat s) xs)" for k
    using page_slice [OF assms, of "int k + 1" xs] assms
    by (simp add: nat_mult_distrib)
  show ?thesis
    unfolding ct upto_as_upt
    using concat_pages_nat [of "nat s" xs t] cover by (simp add: comp_def pg)
qed

lemma handlePageChange_outside:
  assumes "0 < itemsPerPage st"
    and "page < 1 \<or> page > \<lceil>real (length xs) / real_of_int (itemsPerPage st)\<rceil>"
  shows "handlePageChange xs page st = st"
  using assms by (auto simp: handlePageChange_def totalPages_ceiling le_jsnum_def)

text \<open>
  Claim C7. For a sequence of length \<open>n\<close> and a page size \<open>s\<close> (positive): page \<open>p\<close> is
  the slice from \<open>(p - 1) * s\<close> up to \<open>p * s\<close>, clipped to the sequence; the page
  count is \<open>ceil(n / s)\<close>; the pages 1 to the page count, concatenated in order, are the
  sequence; and a request for a page below 1 or above the page count leaves the current
  page as it is.
\<close>

theorem pagination:
  "0 < s \<Longrightarrow>
     (\<forall>p\<ge>1. currentDisplayedMovies \<lparr>currentPage = p, itemsPerPage = s\<rparr> xs
              = take (nat s) (drop (nat ((p - 1) * s)) xs))
   \<and> totalPages (length xs) s = Fin \<lceil>real (length xs) / real_of_int s\<rceil>
   \<and> concat (map (\<lambda>p. currentDisplayedMovies \<lparr>currentPage = p, itemsPerPage = s\<rparr> xs)
         [1..\<lceil>real (length xs) / real_of_int s\<rceil>]) = xs
   \<and> (\<forall>page cur. page < 1 \<or> page > \<lceil>real (length xs) / real_of_int s\<rceil> \<longrightarrow>
         handlePageChange xs page \<lparr>currentPage = cur, itemsPerPage = s\<rparr>
           = \<lparr>currentPage = cur, itemsPerPage = s\<rparr>)"
  using page_slice [of s _ xs] totalPages_ceiling [of s "length xs"] concat_pages [of s xs]
    handlePageChange_outside [of "\<lparr>currentPage = _, itemsPerPage = s\<rparr>" _ xs]
  by simp

text \<open>Five elements in pages of 2: the third page is the last element, there are 3
  pages, and requests for page 0 and for page 4 change nothing.\<close>

theorem pagination_witness:
  "currentDisplayedMovies \<lparr>currentPage = 3, itemsPerPage = 2\<rparr> [1, 2, 3, 4, 5 :: nat] = [5]
   \<and> totalPages (length [1, 2, 3, 4, 5 :: nat]) 2 = Fin 3
   \<and> handlePageChange [1, 2, 3, 4, 5 :: nat] 0 \<lparr>currentPage = 2, itemsPerPage = 2\<rparr>
       = \<lparr>currentPage = 2, itemsPerPage = 2\<rparr>
   \<and> handlePageChange [1, 2, 3, 4, 5 :: nat] 4 \<lparr>currentPage = 2, itemsPerPage = 2\<rparr>
       = \<lparr>currentPage = 2, itemsPerPage = 2\<rparr>"
  using pagination [of 2 "[1, 2, 3, 4, 5 :: nat]"] by simp

section \<open>Sorting\<close>

lemma insort_cmp_key:
  "(\<And>x y. cmp x y \<le> 0 \<longleftrightarrow> key x \<le> key y) \<Longrightarrow> insort_cmp cmp x ys = insort_key key x ys"
  by (induction ys) auto

lemma js_sort_key:
  assumes "\<And>x y. cmp x y \<le> 0 \<longleftrightarrow> key x \<le> (key y :: int)"
  shows "js_sort cmp xs = sort_key key xs"
  by (induction xs) (simp_all add: js_sort_def sort_key_def insort_cmp_key [OF assms])

lemma sortedMovies_rating:
  "sortedMovies pI lC SortRating Asc xs = sort_key rating xs"
proof -
  have "compareMovies pI lC SortRating x y \<le> 0 \<longleftrightarrow> rating x \<le> rating y" for x y
    by (simp add: compareMovies_def field_value_def Let_def)
  then have "js_sort (compareMovies pI lC SortRating) xs = sort_key rating xs"
    by (rule js_sort_key)
  then show ?thesis by (simp add: sortedMovies_def)
qed

text \<open>
  Claim C4. For every record list and every sort key, the descending sort is the reverse
  of the ascending sort of the same list, records that compare equal included: the
  direction is applied by reversing the sorted sequence. For the rating key: the
  ascending sort is ordered by rating and keeps the records of one rating in their input
  order, so the descending sort has them in the reverse of that order.
\<close>

theorem sortedMovies_desc_rev:
  "sortedMovies pI lC field Desc xs = rev (sortedMovies pI lC field Asc xs)
   \<and> sorted (map rating (sortedMovies pI lC SortRating Asc xs))
   \<and> mset (sortedMovies pI lC SortRating Asc xs) = mset xs
   \<and> filter (\<lambda>m. rating m = r) (sortedMovies pI lC SortRating Asc xs)
       = filter (\<lambda>m. rating m = r) xs
   \<and> filter (\<lambda>m. rating m = r) (sortedMovies pI lC SortRating Desc xs)
       = rev (filter (\<lambda>m. rating m = r) xs)"
proof -
  have d: "sortedMovies pI lC field Desc xs = rev (sortedMovies pI lC field Asc xs)" for field
    by (simp add: sortedMovies_def Let_def)
  have st: "filter (\<lambda>m. rating m = r) (sortedMovies pI lC SortRating Asc xs)
       = filter (\<lambda>m. rating m = r) xs"
    by (simp add: sortedMovies_rating sort_key_stable)
  have "filter (\<lambda>m. rating m = r) (sortedMovies pI lC SortRating Desc xs)
       = rev (filter (\<lambda>m. rating m = r) xs)"
    unfolding d rev_filter [symmetric] st ..
  with d st show ?thesis
    by (simp add: sortedMovies_rating)
qed

section \<open>Mutations, import and export\<close>

lemma handleAddMovie_unique:
  "unique_ids prev \<Longrightarrow> newId \<notin> set (map movie_id prev) \<Longrightarrow>
   unique_ids (handleAddMovie newId now movieData prev)"
  by (simp add: unique_ids_def handleAddMovie_def Let_def)

lemma handleUpdateMovie_ids:
  "map movie_id (handleUpdateMovie now movieData prev) = map movie_id prev"
  by (induction prev) (simp_all add: handleUpdateMovie_def)

lemma handleUpdateMovie_unique:
  "unique_ids prev \<Longrightarrow> unique_ids (handleUpdateMovie now movieData prev)"
  by (simp add: unique_ids_def handleUpdateMovie_ids)

lemma handleDeleteMovie_unique:
  "unique_ids prev \<Longrightarrow> unique_ids (handleDeleteMovie confirmed ident prev)"
  by (simp add: unique_ids_def handleDeleteMovie_def distinct_map_filter)

lemma handleBulkDelete_unique:
  "unique_ids prev \<Longrightarrow> unique_ids (handleBulkDelete confirmed selectedIds prev)"
  by (simp add: unique_ids_def handleBulkDelete_def distinct_map_filter)

lemma mergeImport_drops_existing:
  "fst (mergeImport movies newMovies)
     = filter (\<lambda>m. movie_id m \<notin> set (map movie_id movies)) newMovies @ movies"
  by (simp add: mergeImport_def Let_def)

lemma mergeImport_unique:
  "unique_ids movies \<Longrightarrow> unique_ids newMovies \<Longrightarrow> unique_ids (fst (mergeImport movies newMovies))"
  unfolding mergeImport_drops_existing unique_ids_def
  by (auto simp: distinct_map_filter)

text \<open>
  Claim C1. Every mutation keeps the identities pairwise distinct. Adding with a fresh
  identity, updating, deleting one and deleting many do (the lemmas above), and the
  merge drops every candidate whose identity is among the current ones and puts the
  rest on top; it keeps the invariant when the identities of the batch are distinct
  among themselves. The merge does not compare the candidates with each other: from the
  empty set, a batch of two records with the identity \<open>1\<close> is taken whole, and the
  invariant is lost.
\<close>

theorem mergeImport_duplicate_batch:
  "unique_ids []
   \<and> fst (mergeImport [] [blank_movie [0x31], blank_movie [0x31]])
       = [blank_movie [0x31], blank_movie [0x31]]
   \<and> \<not> unique_ids (fst (mergeImport [] [blank_movie [0x31], blank_movie [0x31]]))"
  by (simp add: unique_ids_def mergeImport_def blank_movie_def)

text \<open>
  Claim C8. Exporting the record set as the structural dump and importing that dump
  finds no new record: every candidate has the identity of a current record and is
  dropped, and the record set stays as it is.
\<close>

theorem export_import_roundtrip:
  "filter (\<lambda>m. movie_id m \<notin> set (map movie_id movies)) movies = []
   \<and> handleFileChange_json movies (handleExport_json movies) = (movies, AlertNoNewRecords)"
  by (simp add: handleFileChange_json_def handleExport_json_def mergeImport_def Let_def)

section \<open>Statistics: the series rollup\<close>

lemma fold_plus_sum_list:
  "fold (\<lambda>x s. s + h x) xs (a::int) = a + sum_list (map h xs)"
  by (induction xs arbitrary: a) simp_all

lemma map_of_map_set: "map_of (map_set k v kvs) t = (if t = k then Some v else map_of kvs t)"
  by (induction kvs) auto

lemma keys_map_set: "fst ` set (map_set k v kvs) = insert k (fst ` set kvs)"
  by (induction k v kvs rule: map_set.induct) auto

lemma distinct_map_set: "distinct (map fst kvs) \<Longrightarrow> distinct (map fst (map_set k v kvs))"
  by (induction kvs) (auto simp: keys_map_set)

lemma tvCalcStep_roll:
  "tvCalcStep m cm = map_set (trim (title m)) (roll_step m (tv_get cm (trim (title m)))) cm"
  by (simp add: tvCalcStep_def roll_step_def tv_get_def Let_def)

lemma tv_get_step:
  "tv_get (tvCalcStep m cm) t
     = (if trim (title m) = t then roll_step m (tv_get cm t) else tv_get cm t)"
  by (auto simp: tvCalcStep_roll tv_get_def map_of_map_set)

lemma tv_get_fold:
  "tv_get (fold tvCalcStep es cm) t
     = fold roll_step (filter (\<lambda>m. trim (title m) = t) es) (tv_get cm t)"
  by (induction es arbitrary: cm) (simp_all add: tv_get_step)

lemma keys_fold:
  "fst ` set (fold tvCalcStep es cm) = fst ` set cm \<union> (\<lambda>m. trim (title m)) ` set es"
  by (induction es arbitrary: cm) (auto simp: tvCalcStep_roll keys_map_set)

lemma distinct_fold:
  "distinct (map fst cm) \<Longrightarrow> distinct (map fst (fold tvCalcStep es cm))"
  by (induction es arbitrary: cm) (simp_all add: tvCalcStep_roll distinct_map_set)

lemma Max_insert_swap:
  assumes "finite S"
  shows "max x (Max (insert a S)) = max a (Max (insert x S))"
proof -
  have "Max (insert x (insert a S)) = max x (Max (insert a S))"
    using assms by (intro Max_insert) auto
  moreover have "Max (insert a (insert x S)) = max a (Max (insert x S))"
    using assms by (intro Max_insert) auto
  ultimately show ?thesis by (simp add: insert_commute)
qed

lemma roll_maxEp:
  "maxEp (fold roll_step es e0)
     = Max (insert (maxEp e0) (set (map (\<lambda>m. or_zero (currentEpisode m)) es)))"
proof (induction es rule: rev_induct)
  case Nil
  show ?case by simp
next
  case (snoc m es)
  then show ?case
    by (simp add: roll_step_def max.commute Max_insert_swap [of _ "or_zero (currentEpisode m)"])
qed

lemma roll_epDuration:
  "epDuration (fold roll_step es e0)
     = (case filter (\<lambda>d. d \<noteq> 0) (map (\<lambda>m. or_zero (duration m)) es) of
          [] \<Rightarrow> epDuration e0 | d # ds \<Rightarrow> last (d # ds))"
proof (induction es rule: rev_induct)
  case Nil
  show ?case by simp
next
  case (snoc m es)
  then show ?case
    by (auto simp: roll_step_def split: list.splits)
qed

lemma keys_tvCalcMap: "fst ` set (tvCalcMap fm) = uniqueTvTitles fm"
  by (simp add: tvCalcMap_def keys_fold uniqueTvTitles_def)

lemma distinct_tvCalcMap: "distinct (map fst (tvCalcMap fm))"
  by (simp add: tvCalcMap_def distinct_fold)

lemma tv_get_tvCalcMap:
  "tv_get (tvCalcMap fm) t = fold roll_step (entries_titled fm t) \<lparr>maxEp = 0, epDuration = 0\<rparr>"
  by (simp add: tvCalcMap_def tv_get_fold entries_titled_def) (simp add: tv_get_def)

lemma map_of_tvCalcMap:
  assumes "t \<in> uniqueTvTitles fm"
  shows "map_of (tvCalcMap fm) t = Some (tv_get (tvCalcMap fm) t)"
proof -
  from assms have "t \<in> fst ` set (tvCalcMap fm)"
    by (simp add: keys_tvCalcMap)
  then obtain e where "map_of (tvCalcMap fm) t = Some e"
    by (metis domD dom_map_of_conv_image_fst)
  then show ?thesis by (simp add: tv_get_def)
qed

lemma tv_maxEp:
  assumes "\<forall>m \<in> set fm. 0 \<le> or_zero (currentEpisode m)" "t \<in> uniqueTvTitles fm"
  shows "maxEp (tv_get (tvCalcMap fm) t) = spec_episodes fm t"
proof -
  let ?eps = "set (map (\<lambda>m. or_zero (currentEpisode m)) (entries_titled fm t))"
  from assms(2) have ne: "?eps \<noteq> {}"
    by (auto simp: uniqueTvTitles_def entries_titled_def filter_empty_conv)
  have "\<forall>x \<in> ?eps. 0 \<le> x"
    using assms(1) by (auto simp: entries_titled_def tvEntries_def)
  then have "0 \<le> Max ?eps" using ne by (meson List.finite_set Max_in)
  then have "Max (insert 0 ?eps) = Max ?eps" using ne by (simp add: max_def)
  then show ?thesis
    by (simp add: tv_get_tvCalcMap roll_maxEp spec_episodes_def)
qed

lemma tv_epDuration:
  "epDuration (tv_get (tvCalcMap fm) t) = last_listed_minutes fm t"
  by (simp add: tv_get_tvCalcMap roll_epDuration last_listed_minutes_def split: list.splits)

lemma sum_values:
  assumes "distinct (map fst kvs)"
  shows "sum_list (map (h \<circ> snd) kvs) = (\<Sum>k \<in> fst ` set kvs. h (the (map_of kvs k)))"
proof -
  have "map (h \<circ> snd) kvs = map ((\<lambda>k. h (the (map_of kvs k))) \<circ> fst) kvs"
    using assms by auto
  then have "sum_list (map (h \<circ> snd) kvs)
      = sum_list (map ((\<lambda>k. h (the (map_of kvs k))) \<circ> fst) kvs)"
    by (rule arg_cong [where f = sum_list])
  also have "\<dots> = sum_list (map (\<lambda>k. h (the (map_of kvs k))) (map fst kvs))"
    by simp
  also have "\<dots> = (\<Sum>k \<in> set (map fst kvs). h (the (map_of kvs k)))"
    using assms by (rule sum_list_distinct_conv_sum_set)
  finally show ?thesis by simp
qed

lemma sum_tvCalcMap:
  "sum_list (map (h \<circ> snd) (tvCalcMap fm))
     = (\<Sum>t \<in> uniqueTvTitles fm. h (tv_get (tvCalcMap fm) t))"
proof -
  have "sum_list (map (h \<circ> snd) (tvCalcMap fm))
      = (\<Sum>t \<in> uniqueTvTitles fm. h (the (map_of (tvCalcMap fm) t)))"
    using sum_values [OF distinct_tvCalcMap, of h fm] by (simp only: keys_tvCalcMap)
  also have "\<dots> = (\<Sum>t \<in> uniqueTvTitles fm. h (tv_get (tvCalcMap fm) t))"
    by (rule sum.cong) (simp_all add: map_of_tvCalcMap)
  finally show ?thesis .
qed

lemma totalEpisodesWatched_sum:
  "totalEpisodesWatched fm = (\<Sum>t \<in> uniqueTvTitles fm. maxEp (tv_get (tvCalcMap fm) t))"
  unfolding totalEpisodesWatched_def fold_plus_sum_list
  by (simp add: sum_tvCalcMap)

lemma tvDuration_sum:
  "tvDuration fm = (\<Sum>t \<in> uniqueTvTitles fm.
      maxEp (tv_get (tvCalcMap fm) t) * epDuration (tv_get (tvCalcMap fm) t))"
  unfolding tvDuration_def fold_plus_sum_list
  using sum_tvCalcMap [of "\<lambda>i. maxEp i * epDuration i" fm]
  by simp


lemma map_of_tvCalcMap_spec:
  assumes "\<forall>m \<in> set fm. 0 \<le> or_zero (currentEpisode m)" "t \<in> uniqueTvTitles fm"
  shows "map_of (tvCalcMap fm) t
           = Some \<lparr>maxEp = spec_episodes fm t, epDuration = last_listed_minutes fm t\<rparr>"
  using tv_maxEp [OF assms] tv_epDuration [of fm t] map_of_tvCalcMap [OF assms(2)]
  by (cases "tv_get (tvCalcMap fm) t") simp

lemma totalMinutes_spec:
  assumes "\<forall>m \<in> set fm. 0 \<le> or_zero (currentEpisode m)"
  shows "totalMinutes fm = rollup_totalMinutes fm"
proof -
  have "tvDuration fm
      = (\<Sum>t \<in> uniqueTvTitles fm. spec_episodes fm t * last_listed_minutes fm t)"
    unfolding tvDuration_sum
    by (rule sum.cong) (simp_all add: tv_maxEp [OF assms] tv_epDuration)
  then show ?thesis
    by (simp add: totalMinutes_def rollup_totalMinutes_def movieDuration_def fold_plus_sum_list)
qed

lemma totalEpisodesWatched_spec:
  assumes "\<forall>m \<in> set fm. 0 \<le> or_zero (currentEpisode m)"
  shows "totalEpisodesWatched fm = (\<Sum>t \<in> uniqueTvTitles fm. spec_episodes fm t)"
  unfolding totalEpisodesWatched_sum
  by (rule sum.cong) (simp_all add: tv_maxEp [OF assms])

lemma trim_Foo: "trim [0x46, 0x6F, 0x6F] = [0x46, 0x6F, 0x6F]"
  by (simp add: trim_def js_space_def)

lemma foo_scenario:
  "tvCount [foo_entry [0x31] 5 40, foo_entry [0x32] 8 40] = 1"
  "tvCalcMap [foo_entry [0x31] 5 40, foo_entry [0x32] 8 40]
     = [([0x46, 0x6F, 0x6F], \<lparr>maxEp = 8, epDuration = 40\<rparr>)]"
  "totalEpisodesWatched [foo_entry [0x31] 5 40, foo_entry [0x32] 8 40] = 8"
  "tvDuration [foo_entry [0x31] 5 40, foo_entry [0x32] 8 40] = 320"
  by (simp_all add: tvCount_def uniqueTvTitles_def tvEntries_def foo_entry_def blank_movie_def
      trim_Foo tvCalcMap_def tvCalcStep_def or_zero_def totalEpisodesWatched_def tvDuration_def)

text \<open>
  Claim C2 (amended). Grouping the series entries of the filtered set by trimmed title,
  the entry of a title in the rollup holds the maximum current-episode value across the
  entries of the title (episode counts being non-negative, as the data model has them)
  and the non-zero duration that stands last among them in the sequence of the filtered
  set, which for a record set kept newest first is the one of the entry added least
  recently; the titles of the rollup are the distinct trimmed titles, each once; the
  episodes watched are the sum of the maxima; and the total minutes are the summed
  durations of the movies plus, over the titles, maximum episode times duration per
  episode. Two series records titled \<open>Foo\<close> with current episodes 5 and 8 and a
  duration of 40 each give a series count of 1, 8 episodes watched and 320 minutes of
  series.
\<close>

theorem tv_rollup:
  "((\<forall>m \<in> set fm. 0 \<le> or_zero (currentEpisode m)) \<longrightarrow>
      (\<forall>t \<in> uniqueTvTitles fm.
         map_of (tvCalcMap fm) t
           = Some \<lparr>maxEp = spec_episodes fm t, epDuration = last_listed_minutes fm t\<rparr>)
      \<and> fst ` set (tvCalcMap fm) = uniqueTvTitles fm
      \<and> distinct (map fst (tvCalcMap fm))
      \<and> totalEpisodesWatched fm = (\<Sum>t \<in> uniqueTvTitles fm. spec_episodes fm t)
      \<and> totalMinutes fm = rollup_totalMinutes fm)
   \<and> tvCount [foo_entry [0x31] 5 40, foo_entry [0x32] 8 40] = 1
   \<and> totalEpisodesWatched [foo_entry [0x31] 5 40, foo_entry [0x32] 8 40] = 8
   \<and> tvDuration [foo_entry [0x31] 5 40, foo_entry [0x32] 8 40] = 320"
  using map_of_tvCalcMap_spec [of fm] totalEpisodesWatched_spec [of fm] totalMinutes_spec [of fm]
    keys_tvCalcMap [of fm] distinct_tvCalcMap [of fm] foo_scenario(1,3,4)
  by blast

text \<open>Two entries of \<open>Foo\<close>, of 30 and then of 40 minutes an episode, and a movie of
  100 minutes: the rollup keeps 8 episodes of 40 minutes, the duration that stands last,
  and the total is 420 minutes.\<close>

theorem tv_rollup_witness:
  "map_of (tvCalcMap [foo_entry [0x32] 8 30, foo_entry [0x31] 5 40,
                      (blank_movie [0x33])\<lparr>duration := Some 100\<rparr>]) [0x46, 0x6F, 0x6F]
     = Some \<lparr>maxEp = 8, epDuration = 40\<rparr>
   \<and> totalMinutes [foo_entry [0x32] 8 30, foo_entry [0x31] 5 40,
                    (blank_movie [0x33])\<lparr>duration := Some 100\<rparr>] = 420"
proof -
  let ?fm = "[foo_entry [0x32] 8 30, foo_entry [0x31] 5 40,
              (blank_movie [0x33])\<lparr>duration := Some 100\<rparr>]"
  have h: "\<forall>m \<in> set ?fm. 0 \<le> or_zero (currentEpisode m)"
    by (simp add: foo_entry_def blank_movie_def or_zero_def)
  have tv: "tvEntries ?fm = [foo_entry [0x32] 8 30, foo_entry [0x31] 5 40]"
    by (simp add: tvEntries_def foo_entry_def blank_movie_def)
  have u: "uniqueTvTitles ?fm = {[0x46, 0x6F, 0x6F]}"
    by (simp add: uniqueTvTitles_def tv) (simp add: foo_entry_def trim_Foo)
  have en: "entries_titled ?fm [0x46, 0x6F, 0x6F] = [foo_entry [0x32] 8 30, foo_entry [0x31] 5 40]"
    by (simp add: entries_titled_def tv) (simp add: foo_entry_def trim_Foo)
  have e: "spec_episodes ?fm [0x46, 0x6F, 0x6F] = 8"
    by (simp add: spec_episodes_def en) (simp add: foo_entry_def or_zero_def)
  have d: "last_listed_minutes ?fm [0x46, 0x6F, 0x6F] = 40"
    by (simp add: last_listed_minutes_def en) (simp add: foo_entry_def or_zero_def)
  have tm: "rollup_totalMinutes ?fm = 420"
    by (simp add: rollup_totalMinutes_def u e d)
       (simp add: is_movie_def foo_entry_def blank_movie_def or_zero_def)
  from tv_rollup [of ?fm] h
  have "(\<forall>t \<in> uniqueTvTitles ?fm.
           map_of (tvCalcMap ?fm) t
             = Some \<lparr>maxEp = spec_episodes ?fm t, epDuration = last_listed_minutes ?fm t\<rparr>)
        \<and> totalMinutes ?fm = rollup_totalMinutes ?fm"
    by blast
  then show ?thesis by (simp add: u e d tm)
qed

text \<open>
  The claim as stated, with the duration supplied most recently, fails: after a first
  entry of \<open>Foo\<close> with 40 minutes an episode and then a second one with 30 minutes are
  added, the second stands on top, and the rollup keeps the 40 minutes of the first.
\<close>

theorem tv_rollup_older_duration:
  "tvCalcMap (handleAddMovie [0x32] 2 (foo_entry [] 8 30)
               (handleAddMovie [0x31] 1 (foo_entry [] 5 40) []))
     = [([0x46, 0x6F, 0x6F], \<lparr>maxEp = 8, epDuration = 40\<rparr>)]
   \<and> spec_episode_minutes (handleAddMovie [0x32] 2 (foo_entry [] 8 30)
                            (handleAddMovie [0x31] 1 (foo_entry [] 5 40) []))
         [0x46, 0x6F, 0x6F] = 30
   \<and> epDuration (tv_get (tvCalcMap (handleAddMovie [0x32] 2 (foo_entry [] 8 30)
                                     (handleAddMovie [0x31] 1 (foo_entry [] 5 40) [])))
                  [0x46, 0x6F, 0x6F])
     \<noteq> spec_episode_minutes (handleAddMovie [0x32] 2 (foo_entry [] 8 30)
                              (handleAddMovie [0x31] 1 (foo_entry [] 5 40) []))
           [0x46, 0x6F, 0x6F]"
proof -
  let ?store = "handleAddMovie [0x32] 2 (foo_entry [] 8 30)
                  (handleAddMovie [0x31] 1 (foo_entry [] 5 40) [])"
  have c: "tvCalcMap ?store = [([0x46, 0x6F, 0x6F], \<lparr>maxEp = 8, epDuration = 40\<rparr>)]"
    by (simp add: handleAddMovie_def tvEntries_def foo_entry_def blank_movie_def
        trim_Foo tvCalcMap_def tvCalcStep_def or_zero_def)
  have s: "spec_episode_minutes ?store [0x46, 0x6F, 0x6F] = 30"
    by (simp add: handleAddMovie_def spec_episode_minutes_def entries_titled_def tvEntries_def
        foo_entry_def blank_movie_def trim_Foo or_zero_def)
  show ?thesis by (simp add: c s tv_get_def)
qed

section \<open>Statistics: records without a media kind\<close>

lemma is_movie_not_tv: "is_movie m \<longleftrightarrow> mediaType m \<noteq> Some Tv"
proof (cases "mediaType m")
  case None
  then show ?thesis by (simp add: is_movie_def)
next
  case (Some k)
  then show ?thesis by (cases k) (simp_all add: is_movie_def)
qed

lemma is_movie_eq:
  "is_movie = (\<lambda>m. mediaType m \<noteq> Some Tv)"
  "is_movie = (\<lambda>m. mediaType m = None \<or> mediaType m = Some MovieKind)"
  by (rule ext, rule is_movie_not_tv) (rule ext, simp add: is_movie_def)

lemma movieCount_not_tv:
  "movieCount fm = length (filter (\<lambda>m. mediaType m \<noteq> Some Tv) fm)"
  by (simp add: movieCount_def is_movie_eq(1))

lemma movieDuration_not_tv:
  "movieDuration fm
     = sum_list (map (\<lambda>m. or_zero (duration m)) (filter (\<lambda>m. mediaType m \<noteq> Some Tv) fm))"
  by (simp add: movieDuration_def fold_plus_sum_list is_movie_eq(1))

lemma tvEntries_idem: "tvEntries (tvEntries fm) = tvEntries fm"
  by (simp add: tvEntries_def)

lemma tv_only:
  "tvCount fm = tvCount (tvEntries fm)"
  "totalEpisodesWatched fm = totalEpisodesWatched (tvEntries fm)"
  "tvDuration fm = tvDuration (tvEntries fm)"
  by (simp_all add: tvCount_def uniqueTvTitles_def totalEpisodesWatched_def tvDuration_def
      tvCalcMap_def tvEntries_idem)

lemma tvEntries_skip:
  "mediaType m \<noteq> Some Tv \<Longrightarrow> tvEntries (xs @ m # ys) = tvEntries (xs @ ys)"
  by (simp add: tvEntries_def)

lemma legacy_as_movie:
  assumes "mediaType m = None"
  shows "movieCount (xs @ m # ys) = movieCount (xs @ ys) + 1"
    and "movieDuration (xs @ m # ys) = movieDuration (xs @ ys) + or_zero (duration m)"
    and "tvCount (xs @ m # ys) = tvCount (xs @ ys)"
    and "totalEpisodesWatched (xs @ m # ys) = totalEpisodesWatched (xs @ ys)"
    and "tvDuration (xs @ m # ys) = tvDuration (xs @ ys)"
proof -
  from assms have nt: "mediaType m \<noteq> Some Tv" by simp
  show "movieCount (xs @ m # ys) = movieCount (xs @ ys) + 1"
    using assms by (simp add: movieCount_not_tv)
  show "movieDuration (xs @ m # ys) = movieDuration (xs @ ys) + or_zero (duration m)"
    using assms by (simp add: movieDuration_not_tv)
  show "tvCount (xs @ m # ys) = tvCount (xs @ ys)"
    by (subst tv_only(1), subst (2) tv_only(1)) (simp only: tvEntries_skip [OF nt])
  show "totalEpisodesWatched (xs @ m # ys) = totalEpisodesWatched (xs @ ys)"
    by (subst tv_only(2), subst (2) tv_only(2)) (simp only: tvEntries_skip [OF nt])
  show "tvDuration (xs @ m # ys) = tvDuration (xs @ ys)"
    by (subst tv_only(3), subst (2) tv_only(3)) (simp only: tvEntries_skip [OF nt])
qed

text \<open>
  Claim C10. A record without a media kind counts as a movie: the movie count and the
  summed movie minutes take the records whose media kind is absent or \<open>movie\<close>, while the
  series count, the episodes watched and the series minutes depend only on the records
  whose media kind is \<open>tv\<close>. So a record without media kind, wherever it stands in the
  filtered set, adds 1 to the movie count and its duration to the movie minutes and
  leaves the three series figures as they are.
\<close>

theorem legacy_media_kind:
  "movieCount fm = length (filter (\<lambda>m. mediaType m = None \<or> mediaType m = Some MovieKind) fm)
   \<and> movieDuration fm
       = sum_list (map (\<lambda>m. or_zero (duration m))
           (filter (\<lambda>m. mediaType m = None \<or> mediaType m = Some MovieKind) fm))
   \<and> tvCount fm = tvCount (filter (\<lambda>m. mediaType m = Some Tv) fm)
   \<and> totalEpisodesWatched fm = totalEpisodesWatched (filter (\<lambda>m. mediaType m = Some Tv) fm)
   \<and> tvDuration fm = tvDuration (filter (\<lambda>m. mediaType m = Some Tv) fm)
   \<and> (mediaType m = None \<longrightarrow>
         movieCount (xs @ m # ys) = movieCount (xs @ ys) + 1
       \<and> movieDuration (xs @ m # ys) = movieDuration (xs @ ys) + or_zero (duration m)
       \<and> tvCount (xs @ m # ys) = tvCount (xs @ ys)
       \<and> totalEpisodesWatched (xs @ m # ys) = totalEpisodesWatched (xs @ ys)
       \<and> tvDuration (xs @ m # ys) = tvDuration (xs @ ys))"
proof -
  have f: "filter (\<lambda>m. mediaType m = Some Tv) fm = tvEntries fm"
    by (simp add: tvEntries_def)
  have g: "filter (\<lambda>m. mediaType m = None \<or> mediaType m = Some MovieKind) fm = filter is_movie fm"
    by (simp only: is_movie_eq(2))
  show ?thesis
    unfolding f g
    using legacy_as_movie [of m xs ys] tv_only [of fm]
    by (simp add: movieCount_def movieDuration_def fold_plus_sum_list)
qed

text \<open>A series entry and a record of 100 minutes without a media kind: one movie of
  100 minutes, one series of 5 episodes of 40 minutes.\<close>

theorem legacy_media_kind_witness:
  "movieCount [foo_entry [0x31] 5 40, (blank_movie [0x33])\<lparr>duration := Some 100\<rparr>] = 1
   \<and> movieDuration [foo_entry [0x31] 5 40, (blank_movie [0x33])\<lparr>duration := Some 100\<rparr>] = 100
   \<and> tvCount [foo_entry [0x31] 5 40, (blank_movie [0x33])\<lparr>duration := Some 100\<rparr>] = 1
   \<and> tvDuration [foo_entry [0x31] 5 40, (blank_movie [0x33])\<lparr>duration := Some 100\<rparr>] = 200"
proof -
  have n: "mediaType ((blank_movie [0x33])\<lparr>duration := Some 100\<rparr>) = None"
    by (simp add: blank_movie_def)
  have b: "movieCount [foo_entry [0x31] 5 40] = 0" "movieDuration [foo_entry [0x31] 5 40] = 0"
    "tvCount [foo_entry [0x31] 5 40] = 1" "tvDuration [foo_entry [0x31] 5 40] = 200"
    by (simp_all add: movieCount_def movieDuration_def is_movie_def tvCount_def uniqueTvTitles_def
        tvEntries_def foo_entry_def blank_movie_def tvDuration_def tvCalcMap_def tvCalcStep_def
        or_zero_def)
  let ?legacy = "(blank_movie [0x33])\<lparr>duration := Some 100\<rparr>"
  from legacy_media_kind [of "[]" ?legacy "[foo_entry [0x31] 5 40]" "[]"] n
  have "movieCount ([foo_entry [0x31] 5 40] @ ?legacy # [])
          = movieCount ([foo_entry [0x31] 5 40] @ []) + 1
      \<and> movieDuration ([foo_entry [0x31] 5 40] @ ?legacy # [])
          = movieDuration ([foo_entry [0x31] 5 40] @ []) + or_zero (duration ?legacy)
      \<and> tvCount ([foo_entry [0x31] 5 40] @ ?legacy # []) = tvCount ([foo_entry [0x31] 5 40] @ [])
      \<and> tvDuration ([foo_entry [0x31] 5 40] @ ?legacy # [])
          = tvDuration ([foo_entry [0x31] 5 40] @ [])"
    by blast
  then show ?thesis by (simp add: b or_zero_def)
qed

section \<open>Statistics: the genre histogram\<close>






























text \<open>What the counting makes of a genre that is a name the object inherits: a text under
  \<open>constructor\<close>, and nothing under \<open>__proto__\<close>.\<close>

lemma inherited_name_counts:
  "genreCounts [genre_record (ascii ''constructor'')] = [(ascii ''constructor'', Garbled)]"
  "genreCounts [genre_record proto_key] = []"
proof -
  have t: "genre_tokens (ascii ''constructor'') = [ascii ''constructor'']"
      "genre_tokens proto_key = [proto_key]"
    by (simp_all add: genre_tokens_def js_split_def genre_sep_def js_space_def trim_def
        ascii_def proto_key_def)
  have i: "ascii ''constructor'' \<in> inherited_names" "proto_key \<in> inherited_names"
    by (simp_all add: inherited_names_def proto_key_def)
  have n: "ascii ''constructor'' \<noteq> proto_key" "ascii ''constructor'' \<noteq> []" "proto_key \<noteq> []"
    by (simp_all add: ascii_def proto_key_def)
  show "genreCounts [genre_record (ascii ''constructor'')] = [(ascii ''constructor'', Garbled)]"
    by (simp add: genreCounts_def genreStep_def genre_record_def blank_movie_def t i n count_up_def)
  show "genreCounts [genre_record proto_key] = []"
    by (simp add: genreCounts_def genreStep_def genre_record_def blank_movie_def t i n count_up_def)
qed




end
